theory Spec2Isabelle
  imports Main "HOL-Library.Word"
begin

unbundle bit_operations_syntax

section \<open>Content hashes of package v1 (hash.go)\<close>

text \<open>
  A Go \<^verbatim>\<open>string\<close> is a sequence of bytes, and so is an Isabelle \<^typ>\<open>string\<close>
  (a list of 8-bit characters): \<^verbatim>\<open>len\<close> is \<^const>\<open>length\<close>, \<^verbatim>\<open>s[i]\<close> is \<open>s ! i\<close>.
  Binary data (\<^verbatim>\<open>[]byte\<close> read from a stream, a digest) is a list of 8-bit words.
\<close>

type_synonym byte = "8 word"
type_synonym uint32 = "32 word"
type_synonym uint64 = "64 word"
type_synonym int64 = "64 word"

subsection \<open>The struct and its accessors\<close>

record Hash =
  algorithm :: string
  hex :: string

text \<open>The zero value \<^verbatim>\<open>Hash{}\<close>.\<close>

definition Hash_zero :: Hash where
  "Hash_zero = \<lparr>algorithm = [], hex = []\<rparr>"

definition Algorithm :: "Hash \<Rightarrow> string" where
  "Algorithm h = algorithm h"

definition Hex :: "Hash \<Rightarrow> string" where
  "Hex h = hex h"

text \<open>\<^verbatim>\<open>fmt.Sprintf("%s:%s", h.Algorithm(), h.Hex())\<close>\<close>

definition String :: "Hash \<Rightarrow> string" where
  "String h = Algorithm h @ '':'' @ Hex h"

subsection \<open>Errors\<close>

text \<open>
  One constructor for each error value the file can return: the four \<^verbatim>\<open>fmt.Errorf\<close>
  messages of \<^verbatim>\<open>parse\<close> with the value they format, \<^verbatim>\<open>strconv.ErrSyntax\<close> from
  \<^verbatim>\<open>strconv.Unquote\<close>, and the errors of a stream's \<^verbatim>\<open>Read\<close>: \<^verbatim>\<open>io.EOF\<close> and any
  other error, named by its message. The messages are "too many parts in hash: %s",
  "found non-hex character in hash: %c", "wrong number of hex digits for sha256: %s" and
  "unsupported hash type: %s"; the second carries the byte \<^verbatim>\<open>rest[0]\<close>, which \<^verbatim>\<open>%c\<close>
  prints as the character with that number.
\<close>

datatype error =
    TooManyParts string
  | NonHexCharacter char
  | WrongNumberOfHexDigits string
  | UnsupportedHashType string
  | ErrSyntax
  | EOF
  | ReadError string

text \<open>
  The error kinds of the specification's taxonomy, and the kind of each error value:
  the first three messages of \<^verbatim>\<open>parse\<close> are format errors, the fourth an unsupported
  algorithm, a failed unquoting is malformed JSON and a failed read an I/O failure.
\<close>

datatype error_kind = InvalidFormat | UnsupportedAlgorithm | MalformedJSON | IOFailure

fun kind_of :: "error \<Rightarrow> error_kind" where
  "kind_of (TooManyParts s) = InvalidFormat"
| "kind_of (NonHexCharacter c) = InvalidFormat"
| "kind_of (WrongNumberOfHexDigits s) = InvalidFormat"
| "kind_of (UnsupportedHashType s) = UnsupportedAlgorithm"
| "kind_of ErrSyntax = MalformedJSON"
| "kind_of EOF = IOFailure"
| "kind_of (ReadError m) = IOFailure"

subsection \<open>The functions of package strings that parse calls\<close>

text \<open>
  \<^verbatim>\<open>strings.Split(s, sep)\<close> for a separator of one byte: the loop of \<^verbatim>\<open>genSplit\<close>
  cuts \<^verbatim>\<open>s\<close> at the first separator (\<^verbatim>\<open>strings.Index\<close>) while there is one, and the
  rest is the last part. A string with \<open>n\<close> separators gives \<open>n + 1\<close> parts.
\<close>

function Split :: "string \<Rightarrow> char \<Rightarrow> string list" where
  "Split s sep =
     (if sep \<in> set s
      then takeWhile (\<lambda>c. c \<noteq> sep) s # Split (tl (dropWhile (\<lambda>c. c \<noteq> sep) s)) sep
      else [s])"
  by pat_completeness auto
termination
proof (relation "measure (\<lambda>(s, sep). length s)")
  show "wf (measure (\<lambda>(s, sep). length s))"
    by simp
next
  fix s :: string and sep :: char
  assume "sep \<in> set s"
  then have "dropWhile (\<lambda>c. c \<noteq> sep) s \<noteq> []"
    by simp
  moreover have "length (dropWhile (\<lambda>c. c \<noteq> sep) s) \<le> length s"
    by (rule length_dropWhile_le)
  ultimately have "length (tl (dropWhile (\<lambda>c. c \<noteq> sep) s)) < length s"
    by (cases "dropWhile (\<lambda>c. c \<noteq> sep) s") auto
  then show "((tl (dropWhile (\<lambda>c. c \<noteq> sep) s), sep), (s, sep)) \<in> measure (\<lambda>(s, sep). length s)"
    by simp
qed

declare Split.simps [simp del]

text \<open>
  \<^verbatim>\<open>strings.TrimLeft(s, cutset)\<close> for a cutset of ASCII bytes (the path through
  \<^verbatim>\<open>makeASCIISet\<close>): the leading bytes that are in the cutset are removed.
\<close>

definition TrimLeft :: "string \<Rightarrow> string \<Rightarrow> string" where
  "TrimLeft s cutset = dropWhile (\<lambda>c. c \<in> set cutset) s"

subsection \<open>parse and NewHash\<close>

text \<open>
  \<^verbatim>\<open>func (h *Hash) parse(unquoted string) error\<close>: the receiver is passed in and
  returned, updated only on the path that returns \<^verbatim>\<open>nil\<close> (\<open>None\<close>). The checks run
  in the order of the source: the number of parts, the characters of the second part,
  then the algorithm and, for sha256, the length.
\<close>

definition parse :: "Hash \<Rightarrow> string \<Rightarrow> Hash \<times> error option" where
  "parse h unquoted =
     (let parts = Split unquoted (CHR '':'') in
      if length parts \<noteq> 2 then (h, Some (TooManyParts unquoted))
      else
        let rest = TrimLeft (parts ! 1) ''0123456789abcdef'' in
        if length rest \<noteq> 0 then (h, Some (NonHexCharacter (rest ! 0)))
        else if parts ! 0 = ''sha256'' then
          (if length (parts ! 1) \<noteq> 64
           then (h, Some (WrongNumberOfHexDigits (parts ! 1)))
           else (h\<lparr>algorithm := parts ! 0, hex := parts ! 1\<rparr>, None))
        else (h, Some (UnsupportedHashType (parts ! 0))))"

definition NewHash :: "string \<Rightarrow> Hash \<times> error option" where
  "NewHash s =
     (case parse Hash_zero s of
        (h, Some err) \<Rightarrow> (Hash_zero, Some err)
      | (h, None) \<Rightarrow> (h, None))"

subsection \<open>Package unicode/utf8\<close>

text \<open>
  A rune is a number; the runes these functions produce are never negative. The table
  \<^verbatim>\<open>first\<close> with \<^verbatim>\<open>acceptRanges\<close> gives, for the first byte of a sequence of several
  bytes, its size and the range of its second byte; the other first bytes are ASCII
  (below \<^verbatim>\<open>RuneSelf\<close>) or invalid.
\<close>

definition RuneError :: nat where
  "RuneError = 0xFFFD"

definition RuneSelf :: nat where
  "RuneSelf = 0x80"

definition MaxRune :: nat where
  "MaxRune = 0x10FFFF"

definition first :: "nat \<Rightarrow> (nat \<times> nat \<times> nat) option" where
  "first b =
     (if 0xC2 \<le> b \<and> b \<le> 0xDF then Some (2, 0x80, 0xBF)
      else if b = 0xE0 then Some (3, 0xA0, 0xBF)
      else if 0xE1 \<le> b \<and> b \<le> 0xEC then Some (3, 0x80, 0xBF)
      else if b = 0xED then Some (3, 0x80, 0x9F)
      else if 0xEE \<le> b \<and> b \<le> 0xEF then Some (3, 0x80, 0xBF)
      else if b = 0xF0 then Some (4, 0x90, 0xBF)
      else if 0xF1 \<le> b \<and> b \<le> 0xF3 then Some (4, 0x80, 0xBF)
      else if b = 0xF4 then Some (4, 0x80, 0x8F)
      else None)"

text \<open>\<^verbatim>\<open>utf8.DecodeRuneInString\<close>: the rune and the number of bytes it takes.\<close>

definition DecodeRuneInString :: "string \<Rightarrow> nat \<times> nat" where
  "DecodeRuneInString s =
     (let n = length s in
      if n < 1 then (RuneError, 0)
      else
        let s0 = of_char (s ! 0) in
        if s0 < RuneSelf then (s0, 1)
        else
          (case first s0 of
             None \<Rightarrow> (RuneError, 1)
           | Some (sz, lo, hi) \<Rightarrow>
               if n < sz then (RuneError, 1)
               else
                 let s1 = of_char (s ! 1) in
                 if s1 < lo \<or> hi < s1 then (RuneError, 1)
                 else if sz \<le> 2 then (push_bit 6 (s0 AND 0x1F) OR (s1 AND 0x3F), 2)
                 else
                   let s2 = of_char (s ! 2) in
                   if s2 < 0x80 \<or> 0xBF < s2 then (RuneError, 1)
                   else if sz \<le> 3
                   then (push_bit 12 (s0 AND 0x0F) OR push_bit 6 (s1 AND 0x3F) OR (s2 AND 0x3F), 3)
                   else
                     let s3 = of_char (s ! 3) in
                     if s3 < 0x80 \<or> 0xBF < s3 then (RuneError, 1)
                     else (push_bit 18 (s0 AND 0x07) OR push_bit 12 (s1 AND 0x3F)
                             OR push_bit 6 (s2 AND 0x3F) OR (s3 AND 0x3F), 4)))"

lemma DecodeRuneInString_size:
  "s \<noteq> [] \<Longrightarrow> DecodeRuneInString s = (r, w) \<Longrightarrow> 1 \<le> w"
  by (auto simp: DecodeRuneInString_def Let_def split: if_splits option.splits)

lemma DecodeRuneInString_shorter:
  "s \<noteq> [] \<Longrightarrow> (r, w) = DecodeRuneInString s \<Longrightarrow> length s - w < length s"
  using DecodeRuneInString_size [of s r w] by (cases s) auto

text \<open>
  \<^verbatim>\<open>utf8.ValidString\<close>: every sequence of the string decodes, that is, no step gives
  \<^verbatim>\<open>RuneError\<close> of width 1.
\<close>

function ValidString :: "string \<Rightarrow> bool" where
  "ValidString s =
     (if s = [] then True
      else
        (case DecodeRuneInString s of
           (r, w) \<Rightarrow>
             if r = RuneError \<and> w = 1 then False else ValidString (drop w s)))"
  by pat_completeness auto
termination
  by (relation "measure length") (auto simp: DecodeRuneInString_shorter)

declare ValidString.simps [simp del]

definition ValidRune :: "nat \<Rightarrow> bool" where
  "ValidRune r = (r < 0xD800 \<or> (0xDFFF < r \<and> r \<le> MaxRune))"

text \<open>\<^verbatim>\<open>utf8.EncodeRune\<close>: the bytes written for a rune.\<close>

definition EncodeRune :: "nat \<Rightarrow> string" where
  "EncodeRune r =
     (if r \<le> 0x7F then [char_of r]
      else if r \<le> 0x7FF then [char_of (0xC0 OR drop_bit 6 r), char_of (0x80 OR (r AND 0x3F))]
      else if r > MaxRune \<or> (0xD800 \<le> r \<and> r \<le> 0xDFFF) then [CHR 0xEF, CHR 0xBF, CHR 0xBD]
      else if r \<le> 0xFFFF
      then [char_of (0xE0 OR drop_bit 12 r), char_of (0x80 OR (drop_bit 6 r AND 0x3F)),
            char_of (0x80 OR (r AND 0x3F))]
      else [char_of (0xF0 OR drop_bit 18 r), char_of (0x80 OR (drop_bit 12 r AND 0x3F)),
            char_of (0x80 OR (drop_bit 6 r AND 0x3F)), char_of (0x80 OR (r AND 0x3F))])"

subsection \<open>The text of an error\<close>

text \<open>
  The verb \<^verbatim>\<open>%c\<close> of package fmt, given a byte: the character whose code point is the
  number of the byte, written in UTF-8. For an ASCII byte that is the byte itself.
\<close>

definition fmt_c :: "char \<Rightarrow> string" where
  "fmt_c b = EncodeRune (of_char b)"

text \<open>The method \<^verbatim>\<open>Error()\<close>: the text of each error value.\<close>

fun Error :: "error \<Rightarrow> string" where
  "Error (TooManyParts s) = ''too many parts in hash: '' @ s"
| "Error (NonHexCharacter b) = ''found non-hex character in hash: '' @ fmt_c b"
| "Error (WrongNumberOfHexDigits s) = ''wrong number of hex digits for sha256: '' @ s"
| "Error (UnsupportedHashType s) = ''unsupported hash type: '' @ s"
| "Error ErrSyntax = ''invalid syntax''"
| "Error EOF = ''EOF''"
| "Error (ReadError m) = m"

subsection \<open>strconv.Unquote\<close>

text \<open>
  \<^verbatim>\<open>strconv.Unquote\<close> reads its argument as a Go literal: a string between double
  quotes with Go's escapes, a raw string between back quotes, or one character between
  single quotes. The characters named below are the double quote (0x22), the single
  quote (0x27), the backslash (0x5C), the back quote (0x60), the newline (0x0A) and the
  carriage return (0x0D).
\<close>

definition unhex :: "char \<Rightarrow> nat option" where
  "unhex b =
     (let c = of_char b :: nat in
      if of_char CHR ''0'' \<le> c \<and> c \<le> of_char CHR ''9'' then Some (c - of_char CHR ''0'')
      else if of_char CHR ''a'' \<le> c \<and> c \<le> of_char CHR ''f'' then Some (c - of_char CHR ''a'' + 10)
      else if of_char CHR ''A'' \<le> c \<and> c \<le> of_char CHR ''F'' then Some (c - of_char CHR ''A'' + 10)
      else None)"

text \<open>The loop \<^verbatim>\<open>v = v<<4 | x\<close> over the hexadecimal digits of an escape.\<close>

fun hex_run :: "nat \<Rightarrow> string \<Rightarrow> nat option" where
  "hex_run v [] = Some v"
| "hex_run v (b # bs) =
     (case unhex b of None \<Rightarrow> None | Some x \<Rightarrow> hex_run (push_bit 4 v OR x) bs)"

text \<open>The loop \<^verbatim>\<open>v = (v << 3) | x\<close> over the two further digits of an octal escape.\<close>

fun octal_run :: "nat \<Rightarrow> string \<Rightarrow> nat option" where
  "octal_run v [] = Some v"
| "octal_run v (b # bs) =
     (let c = of_char b :: nat in
      if c < of_char CHR ''0'' \<or> of_char CHR ''7'' < c then None
      else octal_run (push_bit 3 v OR (c - of_char CHR ''0'')) bs)"

text \<open>
  The second half of \<^verbatim>\<open>strconv.UnquoteChar\<close>: the escape \<open>c\<close> after a backslash, with
  \<open>s\<close> the text after it. The result is the value, whether it is to be written as
  UTF-8, and the tail.
\<close>

definition unquote_escape :: "char \<Rightarrow> string \<Rightarrow> char \<Rightarrow> error + (nat \<times> bool \<times> string)" where
  "unquote_escape c s quote =
     (if c = CHR ''a'' then Inr (7, False, s)
      else if c = CHR ''b'' then Inr (8, False, s)
      else if c = CHR ''f'' then Inr (12, False, s)
      else if c = CHR ''n'' then Inr (10, False, s)
      else if c = CHR ''r'' then Inr (13, False, s)
      else if c = CHR ''t'' then Inr (9, False, s)
      else if c = CHR ''v'' then Inr (11, False, s)
      else if c = CHR ''x'' \<or> c = CHR ''u'' \<or> c = CHR ''U'' then
        (let n = (if c = CHR ''x'' then 2 else if c = CHR ''u'' then 4 else 8) in
         if length s < n then Inl ErrSyntax
         else
           (case hex_run 0 (take n s) of
              None \<Rightarrow> Inl ErrSyntax
            | Some v \<Rightarrow>
                if c = CHR ''x'' then Inr (v, False, drop n s)
                else if \<not> ValidRune v then Inl ErrSyntax
                else Inr (v, True, drop n s)))
      else if of_char CHR ''0'' \<le> (of_char c :: nat) \<and> (of_char c :: nat) \<le> of_char CHR ''7'' then
        (if length s < 2 then Inl ErrSyntax
         else
           (case octal_run (of_char c - of_char CHR ''0'') (take 2 s) of
              None \<Rightarrow> Inl ErrSyntax
            | Some v \<Rightarrow> if v > 255 then Inl ErrSyntax else Inr (v, False, drop 2 s)))
      else if c = CHR 0x5C then Inr (of_char c, False, s)
      else if c = CHR 0x27 \<or> c = CHR 0x22 then
        (if c \<noteq> quote then Inl ErrSyntax else Inr (of_char c, False, s))
      else Inl ErrSyntax)"

definition UnquoteChar :: "string \<Rightarrow> char \<Rightarrow> error + (nat \<times> bool \<times> string)" where
  "UnquoteChar s quote =
     (if length s = 0 then Inl ErrSyntax
      else
        let c = s ! 0 in
        if c = quote \<and> (quote = CHR 0x27 \<or> quote = CHR 0x22) then Inl ErrSyntax
        else if RuneSelf \<le> of_char c then
          (case DecodeRuneInString s of (r, w) \<Rightarrow> Inr (r, True, drop w s))
        else if c \<noteq> CHR 0x5C then Inr (of_char c, False, drop 1 s)
        else if length s \<le> 1 then Inl ErrSyntax
        else unquote_escape (s ! 1) (drop 2 s) quote)"

lemma unquote_escape_tail:
  "unquote_escape c s quote = Inr (r, m, t) \<Longrightarrow> length t \<le> length s"
  by (auto simp: unquote_escape_def Let_def split: if_splits option.splits)

lemma UnquoteChar_shorter:
  assumes "UnquoteChar s quote = Inr (r, m, t)"
  shows "length t < length s"
proof -
  from assms have ne: "s \<noteq> []"
    by (auto simp: UnquoteChar_def)
  show ?thesis
  proof (cases "RuneSelf \<le> of_char (s ! 0)")
    case True
    with assms ne obtain w where "DecodeRuneInString s = (r, w)" and "t = drop w s"
      by (auto simp: UnquoteChar_def Let_def split: if_splits prod.splits)
    with ne show ?thesis
      using DecodeRuneInString_shorter [of s r w] by simp
  next
    case False
    show ?thesis
    proof (cases "s ! 0 \<noteq> CHR 0x5C")
      case True
      with assms ne \<open>\<not> RuneSelf \<le> of_char (s ! 0)\<close> show ?thesis
        by (cases s) (auto simp: UnquoteChar_def Let_def split: if_splits)
    next
      case False
      with assms ne \<open>\<not> RuneSelf \<le> of_char (s ! 0)\<close>
      have "unquote_escape (s ! 1) (drop 2 s) quote = Inr (r, m, t)" and "1 < length s"
        by (auto simp: UnquoteChar_def Let_def split: if_splits)
      then show ?thesis
        using unquote_escape_tail [of "s ! 1" "drop 2 s" quote r m t] by simp
    qed
  qed
qed

text \<open>
  The loop of \<^verbatim>\<open>unquote\<close> over a literal with escapes, from after the opening quote:
  \<open>None\<close> when it returns \<^verbatim>\<open>ErrSyntax\<close>, else the buffer and the rest of the input
  when the loop ends.
\<close>

function unquote_loop :: "char \<Rightarrow> string \<Rightarrow> string \<Rightarrow> (string \<times> string) option" where
  "unquote_loop quote inp buf =
     (if 0 < length inp \<and> inp ! 0 \<noteq> quote then
        (case UnquoteChar inp quote of
           Inl err \<Rightarrow> None
         | Inr (r, multibyte, rem) \<Rightarrow>
             if inp ! 0 = CHR 0x0A then None
             else
               let buf' = (if r < RuneSelf \<or> \<not> multibyte then buf @ [char_of r]
                           else buf @ EncodeRune r)
               in if quote = CHR 0x27 then Some (buf', rem)
                  else unquote_loop quote rem buf')
      else Some (buf, inp))"
  by pat_completeness auto
termination
  by (relation "measure (\<lambda>(quote, inp, buf). length inp)")
     (auto dest: UnquoteChar_shorter)

declare unquote_loop.simps [simp del]

text \<open>\<^verbatim>\<open>index(s, c)\<close>: where the byte first stands.\<close>

definition index :: "string \<Rightarrow> char \<Rightarrow> nat option" where
  "index s c = (if c \<in> set s then Some (length (takeWhile (\<lambda>b. b \<noteq> c) s)) else None)"

definition contains :: "string \<Rightarrow> char \<Rightarrow> bool" where
  "contains s c = (c \<in> set s)"

text \<open>
  \<^verbatim>\<open>unquote(in, true)\<close>: the unquoted text, the input left after the literal, and the
  error. \<open>e\<close> is the position after the first byte equal to the opening quote.
\<close>

definition unquote :: "string \<Rightarrow> string \<times> string \<times> error option" where
  "unquote inp =
     (if length inp < 2 then ([], inp, Some ErrSyntax)
      else
        let quote = inp ! 0 in
        (case index (drop 1 inp) quote of
           None \<Rightarrow> ([], inp, Some ErrSyntax)
         | Some i \<Rightarrow>
             let e = i + 2; inner = take (e - 2) (drop 1 inp) in
             if quote = CHR 0x60 then
               (if \<not> contains (take e inp) (CHR 0x0D) then (inner, drop e inp, None)
                else (filter (\<lambda>b. b \<noteq> CHR 0x0D) inner, drop e inp, None))
             else if quote = CHR 0x22 \<or> quote = CHR 0x27 then
               (if \<not> contains (take e inp) (CHR 0x5C) \<and> \<not> contains (take e inp) (CHR 0x0A) \<and>
                   (if quote = CHR 0x22 then ValidString inner
                    else (case DecodeRuneInString inner of
                            (r, n) \<Rightarrow> 1 + n + 1 = e \<and> (r \<noteq> RuneError \<or> n \<noteq> 1)))
                then (inner, drop e inp, None)
                else
                  (case unquote_loop quote (drop 1 inp) [] of
                     None \<Rightarrow> ([], inp, Some ErrSyntax)
                   | Some (buf, rest) \<Rightarrow>
                       if \<not> (0 < length rest \<and> rest ! 0 = quote) then ([], inp, Some ErrSyntax)
                       else (buf, drop 1 rest, None)))
             else ([], inp, Some ErrSyntax)))"

definition Unquote :: "string \<Rightarrow> error + string" where
  "Unquote s =
     (case unquote s of
        (out, rem, err) \<Rightarrow>
          if 0 < length rem then Inl ErrSyntax
          else (case err of Some e \<Rightarrow> Inl e | None \<Rightarrow> Inr out))"

subsection \<open>json.Marshal of a string\<close>

text \<open>
  \<^verbatim>\<open>json.Marshal\<close> of a Go string writes it between double quotes
  (\<^verbatim>\<open>encodeState.string\<close> with \<^verbatim>\<open>escapeHTML\<close> set): a byte of \<^verbatim>\<open>htmlSafeSet\<close> is
  copied, any other ASCII byte is escaped, invalid UTF-8 becomes the escape of U+FFFD, and the
  line and paragraph separators are escaped. It returns no error.
\<close>

definition hextable :: string where
  "hextable = ''0123456789abcdef''"

definition htmlSafeSet :: "nat \<Rightarrow> bool" where
  "htmlSafeSet b =
     (0x20 \<le> b \<and> b < 0x80 \<and> b \<noteq> 0x22 \<and> b \<noteq> 0x26 \<and> b \<noteq> 0x3C \<and> b \<noteq> 0x3E \<and> b \<noteq> 0x5C)"

definition escape_byte :: "char \<Rightarrow> string" where
  "escape_byte b =
     CHR 0x5C #
       (if b = CHR 0x5C \<or> b = CHR 0x22 then [b]
        else if b = CHR 0x0A then ''n''
        else if b = CHR 0x0D then ''r''
        else if b = CHR 0x09 then ''t''
        else ''u00'' @ [hextable ! drop_bit 4 (of_char b), hextable ! (of_char b AND 0xF)])"

function encode_string :: "string \<Rightarrow> string" where
  "encode_string s =
     (if s = [] then []
      else
        let b = s ! 0 in
        if of_char b < RuneSelf then
          (if htmlSafeSet (of_char b) then [b] else escape_byte b) @ encode_string (drop 1 s)
        else
          (case DecodeRuneInString s of
             (c, w) \<Rightarrow>
               if c = RuneError \<and> w = 1 then (CHR 0x5C # ''ufffd'') @ encode_string (drop w s)
               else if c = 0x2028 \<or> c = 0x2029
               then (CHR 0x5C # ''u202'') @ [hextable ! (c AND 0xF)] @ encode_string (drop w s)
               else take w s @ encode_string (drop w s)))"
  by pat_completeness auto
termination
  by (relation "measure length") (auto simp: DecodeRuneInString_shorter)

declare encode_string.simps [simp del]

definition Marshal :: "string \<Rightarrow> string \<times> error option" where
  "Marshal v = ([CHR 0x22] @ encode_string v @ [CHR 0x22], None)"

subsection \<open>MarshalJSON and UnmarshalJSON\<close>

definition MarshalJSON :: "Hash \<Rightarrow> string \<times> error option" where
  "MarshalJSON h = Marshal (String h)"

text \<open>
  \<^verbatim>\<open>func (h *Hash) UnmarshalJSON(data []byte) error\<close>: \<^verbatim>\<open>string(data)\<close> has the bytes
  of \<open>data\<close>; the receiver is returned as \<^verbatim>\<open>parse\<close> leaves it.
\<close>

definition UnmarshalJSON :: "Hash \<Rightarrow> string \<Rightarrow> Hash \<times> error option" where
  "UnmarshalJSON h data =
     (case Unquote data of
        Inl err \<Rightarrow> (h, Some err)
      | Inr s \<Rightarrow> parse h s)"

subsection \<open>Package crypto/sha256\<close>

type_synonym hstate =
  "uint32 \<times> uint32 \<times> uint32 \<times> uint32 \<times> uint32 \<times> uint32 \<times> uint32 \<times> uint32"

text \<open>
  The struct \<^verbatim>\<open>digest\<close>: the eight words \<^verbatim>\<open>h\<close>, the bytes waiting for a full block
  (\<^verbatim>\<open>x[:nx]\<close>) and the number of bytes written, \<^verbatim>\<open>len\<close>.
\<close>

record digest =
  digest_h :: hstate
  digest_x :: "byte list"
  digest_len :: uint64

definition chunk :: nat where
  "chunk = 64"

definition K256 :: "uint32 list" where
  "K256 = [
    0x428A2F98, 0x71374491, 0xB5C0FBCF, 0xE9B5DBA5, 0x3956C25B, 0x59F111F1, 0x923F82A4, 0xAB1C5ED5,
    0xD807AA98, 0x12835B01, 0x243185BE, 0x550C7DC3, 0x72BE5D74, 0x80DEB1FE, 0x9BDC06A7, 0xC19BF174,
    0xE49B69C1, 0xEFBE4786, 0x0FC19DC6, 0x240CA1CC, 0x2DE92C6F, 0x4A7484AA, 0x5CB0A9DC, 0x76F988DA,
    0x983E5152, 0xA831C66D, 0xB00327C8, 0xBF597FC7, 0xC6E00BF3, 0xD5A79147, 0x06CA6351, 0x14292967,
    0x27B70A85, 0x2E1B2138, 0x4D2C6DFC, 0x53380D13, 0x650A7354, 0x766A0ABB, 0x81C2C92E, 0x92722C85,
    0xA2BFE8A1, 0xA81A664B, 0xC24B8B70, 0xC76C51A3, 0xD192E819, 0xD6990624, 0xF40E3585, 0x106AA070,
    0x19A4C116, 0x1E376C08, 0x2748774C, 0x34B0BCB5, 0x391C0CB3, 0x4ED8AA4A, 0x5B9CCA4F, 0x682E6FF3,
    0x748F82EE, 0x78A5636F, 0x84C87814, 0x8CC70208, 0x90BEFFFA, 0xA4506CEB, 0xBEF9A3F7, 0xC67178F2]"

text \<open>\<^verbatim>\<open>sha256.New()\<close>: the state after \<^verbatim>\<open>Reset\<close>.\<close>

definition New :: digest where
  "New = \<lparr>digest_h = (0x6A09E667, 0xBB67AE85, 0x3C6EF372, 0xA54FF53A,
                       0x510E527F, 0x9B05688C, 0x1F83D9AB, 0x5BE0CD19),
          digest_x = [], digest_len = 0\<rparr>"

text \<open>\<^verbatim>\<open>bits.RotateLeft32(x, -n)\<close>: a rotation to the right by \<open>n\<close>, for \<open>0 < n < 32\<close>.\<close>

definition rotr :: "nat \<Rightarrow> uint32 \<Rightarrow> uint32" where
  "rotr n v = drop_bit n v OR push_bit (32 - n) v"

text \<open>The first sixteen words of the schedule: the block read as big-endian words.\<close>

fun be32 :: "byte list \<Rightarrow> uint32 list" where
  "be32 (a # b # c # d # p) =
     (push_bit 24 (ucast a) OR push_bit 16 (ucast b) OR push_bit 8 (ucast c) OR ucast d) # be32 p"
| "be32 p = []"

text \<open>The loop \<^verbatim>\<open>for i := 16; i < 64; i++\<close>: each step appends \<open>w[i]\<close> for \<open>i = length w\<close>.\<close>

fun schedule :: "nat \<Rightarrow> uint32 list \<Rightarrow> uint32 list" where
  "schedule 0 w = w"
| "schedule (Suc n) w =
     (let i = length w;
          v1 = w ! (i - 2);
          t1 = rotr 17 v1 XOR rotr 19 v1 XOR drop_bit 10 v1;
          v2 = w ! (i - 15);
          t2 = rotr 7 v2 XOR rotr 18 v2 XOR drop_bit 3 v2
      in schedule n (w @ [t1 + w ! (i - 7) + t2 + w ! (i - 16)]))"

text \<open>One round of the compression loop, for the constant and the schedule word of its index.\<close>

definition sha_round :: "uint32 \<times> uint32 \<Rightarrow> hstate \<Rightarrow> hstate" where
  "sha_round kw s =
     (case (kw, s) of
        ((k, w), (a, b, c, d, e, f, g, h)) \<Rightarrow>
          let t1 = h + (rotr 6 e XOR rotr 11 e XOR rotr 25 e) + ((e AND f) XOR (NOT e AND g)) + k + w;
              t2 = (rotr 2 a XOR rotr 13 a XOR rotr 22 a) + ((a AND b) XOR (a AND c) XOR (b AND c))
          in (t1 + t2, a, b, c, d + t1, e, f, g))"

text \<open>The body of the loop of \<^verbatim>\<open>blockGeneric\<close>, on the first 64 bytes of \<open>p\<close>.\<close>

definition block_chunk :: "hstate \<Rightarrow> byte list \<Rightarrow> hstate" where
  "block_chunk hs p =
     (case (hs, fold sha_round (zip K256 (schedule 48 (be32 (take chunk p)))) hs) of
        ((h0, h1, h2, h3, h4, h5, h6, h7), (a, b, c, d, e, f, g, h)) \<Rightarrow>
          (h0 + a, h1 + b, h2 + c, h3 + d, h4 + e, h5 + f, h6 + g, h7 + h))"

text \<open>\<^verbatim>\<open>blockGeneric\<close>: \<^verbatim>\<open>for len(p) >= chunk { ...; p = p[chunk:] }\<close>.\<close>

function block :: "hstate \<Rightarrow> byte list \<Rightarrow> hstate" where
  "block hs p = (if chunk \<le> length p then block (block_chunk hs p) (drop chunk p) else hs)"
  by pat_completeness auto
termination
  by (relation "measure (\<lambda>(hs, p). length p)") (auto simp: chunk_def)

declare block.simps [simp del]

text \<open>
  \<^verbatim>\<open>func (d *digest) Write(p []byte)\<close>: fill the waiting bytes first and hash them when
  they are a block, hash the whole blocks of the rest, keep what is left. It returns
  \<^verbatim>\<open>len(p)\<close> and no error, so only the new state is given.
\<close>

definition Write :: "digest \<Rightarrow> byte list \<Rightarrow> digest" where
  "Write d p =
     (let d1 = d\<lparr>digest_len := digest_len d + of_nat (length p)\<rparr>;
          (d2, p2) =
            (if 0 < length (digest_x d1) then
               let n = min (chunk - length (digest_x d1)) (length p);
                   xs = digest_x d1 @ take n p
               in (if length xs = chunk
                   then d1\<lparr>digest_h := block (digest_h d1) xs, digest_x := []\<rparr>
                   else d1\<lparr>digest_x := xs\<rparr>,
                   drop n p)
             else (d1, p));
          (d3, p3) =
            (if chunk \<le> length p2 then
               let n = length p2 - length p2 mod chunk
               in (d2\<lparr>digest_h := block (digest_h d2) (take n p2)\<rparr>, drop n p2)
             else (d2, p2))
      in if 0 < length p3 then d3\<lparr>digest_x := p3\<rparr> else d3)"

text \<open>\<^verbatim>\<open>binary.BigEndian.PutUint64\<close> and \<^verbatim>\<open>PutUint32\<close>.\<close>

definition PutUint64 :: "uint64 \<Rightarrow> byte list" where
  "PutUint64 v = map (\<lambda>i. ucast (drop_bit (8 * i) v)) [7, 6, 5, 4, 3, 2, 1, 0]"

definition PutUint32 :: "uint32 \<Rightarrow> byte list" where
  "PutUint32 v = map (\<lambda>i. ucast (drop_bit (8 * i) v)) [3, 2, 1, 0]"

text \<open>
  \<^verbatim>\<open>checkSum\<close>: the padding (a one bit, zeros up to 56 bytes modulo 64, the length in
  bits), then the eight words as 32 bytes.
\<close>

definition checkSum :: "digest \<Rightarrow> byte list" where
  "checkSum d =
     (let len = digest_len d;
          tmp = 0x80 # replicate 63 0;
          d1 = (if unat len mod 64 < 56 then Write d (take (56 - unat len mod 64) tmp)
                else Write d (take (64 + 56 - unat len mod 64) tmp));
          d2 = Write d1 (PutUint64 (push_bit 3 len))
      in case digest_h d2 of
           (h0, h1, h2, h3, h4, h5, h6, h7) \<Rightarrow>
             PutUint32 h0 @ PutUint32 h1 @ PutUint32 h2 @ PutUint32 h3 @
             PutUint32 h4 @ PutUint32 h5 @ PutUint32 h6 @ PutUint32 h7)"

text \<open>\<^verbatim>\<open>Sum\<close> works on a copy of the digest and appends the checksum to its argument.\<close>

definition Sum :: "digest \<Rightarrow> byte list \<Rightarrow> byte list" where
  "Sum d b = b @ checkSum d"

subsection \<open>hex.EncodeToString\<close>

definition EncodeToString :: "byte list \<Rightarrow> string" where
  "EncodeToString src =
     concat (map (\<lambda>v. [hextable ! unat (drop_bit 4 v), hextable ! unat (v AND 0x0F)]) src)"

subsection \<open>Streams and io.Copy\<close>

text \<open>
  An \<^verbatim>\<open>io.ReadCloser\<close> is modelled by what its calls to \<^verbatim>\<open>Read\<close> will return, in
  order: each the bytes read and the error (\<open>None\<close> for \<^verbatim>\<open>nil\<close>). A stream whose
  results are used up reports \<^verbatim>\<open>io.EOF\<close>. The stream records the calls made on it.
\<close>

datatype call = ReadCall | CloseCall

record ReadCloser =
  results :: "(byte list \<times> error option) list"
  calls :: "call list"

definition Read :: "ReadCloser \<Rightarrow> (byte list \<times> error option) \<times> ReadCloser" where
  "Read r =
     (case results r of
        [] \<Rightarrow> (([], Some EOF), r\<lparr>calls := calls r @ [ReadCall]\<rparr>)
      | res # rest \<Rightarrow> (res, r\<lparr>results := rest, calls := calls r @ [ReadCall]\<rparr>))"

definition Close :: "ReadCloser \<Rightarrow> ReadCloser" where
  "Close r = r\<lparr>calls := calls r @ [CloseCall]\<rparr>"

lemma Read_more:
  "Read src = ((p, None), src') \<Longrightarrow> length (results src') < length (results src)"
  by (auto simp: Read_def split: list.splits)

text \<open>
  The loop of \<^verbatim>\<open>io.copyBuffer\<close> with the digest as the writer (its \<^verbatim>\<open>Write\<close> takes all
  the bytes and returns no error, and it is no \<^verbatim>\<open>io.ReaderFrom\<close>): read, write what was
  read, stop at the first error, and report it unless it is \<^verbatim>\<open>io.EOF\<close>. The count is the
  \<^verbatim>\<open>int64\<close> of the source, \<^verbatim>\<open>written += int64(nw)\<close>.
\<close>

function copyBuffer :: "digest \<Rightarrow> ReadCloser \<Rightarrow> int64 \<Rightarrow> digest \<times> ReadCloser \<times> int64 \<times> error option" where
  "copyBuffer dst src written =
     (case Read src of
        ((p, er), src') \<Rightarrow>
          let nr = length p;
              dst' = (if 0 < nr then Write dst p else dst);
              written' = (if 0 < nr then written + of_nat nr else written)
          in (case er of
                Some e \<Rightarrow> (dst', src', written', if e \<noteq> EOF then Some e else None)
              | None \<Rightarrow> copyBuffer dst' src' written'))"
  by pat_completeness auto
termination
  by (relation "measure (\<lambda>(dst, src, written). length (results src))")
     (auto dest: Read_more [OF sym])

declare copyBuffer.simps [simp del]

definition Copy :: "digest \<Rightarrow> ReadCloser \<Rightarrow> digest \<times> ReadCloser \<times> int64 \<times> error option" where
  "Copy dst src = copyBuffer dst src 0"

subsection \<open>SHA256\<close>

text \<open>
  \<^verbatim>\<open>func SHA256(r io.ReadCloser) (Hash, int64, error)\<close>. The deferred \<^verbatim>\<open>r.Close()\<close>
  runs when the results are set and before the caller has them: the function returns
  its three results and the stream as it leaves it.
\<close>

definition SHA256 :: "ReadCloser \<Rightarrow> (Hash \<times> int64 \<times> error option) \<times> ReadCloser" where
  "SHA256 r =
     (let hasher = New in
      case Copy hasher r of
        (hasher', r', n, err) \<Rightarrow>
          ((case err of
              Some e \<Rightarrow> (Hash_zero, 0, Some e)
            | None \<Rightarrow>
                (\<lparr>algorithm = ''sha256'', hex = EncodeToString (Sum hasher' [])\<rparr>, n, None)),
           Close r'))"

subsection \<open>The invariants of the data model\<close>

text \<open>
  The invariants the specification states for a hash (section 3): the algorithm is not
  empty and is in the set of supported algorithms, the hex part has only the characters
  0123456789abcdef, and a sha256 hash has 64 of them.
\<close>

definition invariants :: "Hash \<Rightarrow> bool" where
  "invariants h =
     (algorithm h \<noteq> [] \<and> algorithm h \<in> {''sha256''} \<and>
      set (hex h) \<subseteq> set ''0123456789abcdef'' \<and>
      (algorithm h = ''sha256'' \<longrightarrow> length (hex h) = 64))"

section \<open>Properties\<close>

subsection \<open>Splitting and trimming\<close>

lemma Split_no_sep: "sep \<notin> set s \<Longrightarrow> Split s sep = [s]"
  by (simp add: Split.simps)

lemma takeWhile_until: "sep \<notin> set a \<Longrightarrow> takeWhile (\<lambda>c. c \<noteq> sep) (a @ sep # b) = a"
  by (induction a) auto

lemma dropWhile_until: "sep \<notin> set a \<Longrightarrow> dropWhile (\<lambda>c. c \<noteq> sep) (a @ sep # b) = sep # b"
  by (induction a) auto

lemma Split_sep: "sep \<notin> set a \<Longrightarrow> Split (a @ sep # b) sep = a # Split b sep"
  by (subst Split.simps) (simp add: takeWhile_until dropWhile_until)

lemma length_Split: "length (Split s sep) = Suc (count_list s sep)"
proof (induction s sep rule: Split.induct)
  case (1 s sep)
  show ?case
  proof (cases "sep \<in> set s")
    case True
    then obtain a b where s: "s = a @ sep # b" and a: "sep \<notin> set a"
      by (meson split_list_first)
    from a have d: "dropWhile (\<lambda>c. c \<noteq> sep) s = sep # b"
      unfolding s by (rule dropWhile_until)
    from a have ca: "count_list a sep = 0"
      by (simp add: count_list_0_iff)
    from 1 [OF True] d have "length (Split b sep) = Suc (count_list b sep)"
      by simp
    with a ca show ?thesis
      unfolding s by (simp add: Split_sep)
  next
    case False
    then show ?thesis
      by (simp add: Split_no_sep count_list_0_iff)
  qed
qed

lemma Split_two:
  "CHR '':'' \<notin> set a \<Longrightarrow> CHR '':'' \<notin> set b \<Longrightarrow> Split (a @ '':'' @ b) (CHR '':'') = [a, b]"
  by (simp add: Split_sep Split_no_sep)

lemma TrimLeft_all: "set s \<subseteq> set cutset \<Longrightarrow> TrimLeft s cutset = []"
  by (auto simp: TrimLeft_def)

lemma TrimLeft_find_None:
  "find (\<lambda>c. c \<notin> set cutset) s = None \<Longrightarrow> TrimLeft s cutset = []"
  by (auto simp: TrimLeft_def find_None_iff)

lemma TrimLeft_find_Some:
  "find (\<lambda>c. c \<notin> set cutset) s = Some c \<Longrightarrow> \<exists>t. TrimLeft s cutset = c # t"
  by (induction s) (auto simp: TrimLeft_def split: if_splits)

lemma find_None_subset: "set s \<subseteq> set cutset \<Longrightarrow> find (\<lambda>c. c \<notin> set cutset) s = None"
  by (auto simp: find_None_iff)

lemma find_Some_not_subset:
  "find (\<lambda>c. c \<notin> set cutset) s = Some c \<Longrightarrow> \<not> set s \<subseteq> set cutset"
  by (induction s) (auto split: if_splits)

lemma not_subset_find_Some:
  "\<not> set s \<subseteq> set cutset \<Longrightarrow> \<exists>c. find (\<lambda>c. c \<notin> set cutset) s = Some c"
  by (cases "find (\<lambda>c. c \<notin> set cutset) s") (auto simp: find_None_iff)

lemma subset_not_mem: "set s \<subseteq> set cutset \<Longrightarrow> c \<notin> set cutset \<Longrightarrow> c \<notin> set s"
  by blast

lemma colon_not_hex: "CHR '':'' \<notin> set ''0123456789abcdef''"
  by simp

subsection \<open>What parse returns\<close>

text \<open>
  A text with exactly one colon, \<open>a:b\<close>: the first byte of \<open>b\<close> outside the cutset is
  reported before the algorithm is looked at.
\<close>

lemma parts_split:
  assumes "CHR '':'' \<notin> set a" and "CHR '':'' \<notin> set b"
  shows "parse h (a @ '':'' @ b) =
    (case find (\<lambda>c. c \<notin> set ''0123456789abcdef'') b of
       Some c \<Rightarrow> (h, Some (NonHexCharacter c))
     | None \<Rightarrow>
         if a = ''sha256'' then
           (if length b \<noteq> 64 then (h, Some (WrongNumberOfHexDigits b))
            else (h\<lparr>algorithm := a, hex := b\<rparr>, None))
         else (h, Some (UnsupportedHashType a)))"
proof (cases "find (\<lambda>c. c \<notin> set ''0123456789abcdef'') b")
  case None
  from TrimLeft_find_None [OF this] Split_two [OF assms] None show ?thesis
    by (simp add: parse_def)
next
  case (Some c)
  from TrimLeft_find_Some [OF this] obtain t where "TrimLeft b ''0123456789abcdef'' = c # t" ..
  with Split_two [OF assms] Some show ?thesis
    by (simp add: parse_def)
qed

lemma parse_too_many:
  "count_list s (CHR '':'') \<noteq> 1 \<Longrightarrow> parse h s = (h, Some (TooManyParts s))"
  by (simp add: parse_def length_Split)

lemma count_colons_append:
  "CHR '':'' \<in> set a \<or> CHR '':'' \<in> set b \<Longrightarrow> count_list (a @ '':'' @ b) (CHR '':'') \<noteq> 1"
  by (auto simp: count_list_0_iff)

text \<open>
  Claim C1. For every string \<open>x\<close> of exactly 64 characters drawn from 0123456789abcdef,
  parsing \<open>"sha256:" + x\<close> succeeds, the resulting hash has algorithm "sha256" and hex
  \<open>x\<close>, and rendering it back to text yields exactly \<open>"sha256:" + x\<close>.
\<close>

theorem parse_sha256_roundtrip:
  assumes "length x = 64" and "set x \<subseteq> set ''0123456789abcdef''"
  shows "parse h0 (''sha256:'' @ x) = (\<lparr>algorithm = ''sha256'', hex = x\<rparr>, None) \<and>
         NewHash (''sha256:'' @ x) = (\<lparr>algorithm = ''sha256'', hex = x\<rparr>, None) \<and>
         Algorithm (fst (NewHash (''sha256:'' @ x))) = ''sha256'' \<and>
         Hex (fst (NewHash (''sha256:'' @ x))) = x \<and>
         String (fst (NewHash (''sha256:'' @ x))) = ''sha256:'' @ x"
proof -
  have colon: "CHR '':'' \<notin> set x"
    using assms(2) colon_not_hex by (rule subset_not_mem)
  have "find (\<lambda>c. c \<notin> set ''0123456789abcdef'') x = None"
    using assms(2) by (rule find_None_subset)
  with parts_split [of "''sha256''" x] colon assms(1)
  have p: "parse h (''sha256:'' @ x) = (\<lparr>algorithm = ''sha256'', hex = x\<rparr>, None)" for h
    by simp
  then have n: "NewHash (''sha256:'' @ x) = (\<lparr>algorithm = ''sha256'', hex = x\<rparr>, None)"
    by (simp add: NewHash_def)
  from p n show ?thesis
    by (simp add: Algorithm_def Hex_def String_def)
qed

theorem parse_sha256_roundtrip_witness:
  "length ''e3b0c44298fc1c149afbf4c8996fb92427ae41e4649b934ca495991b7852b855'' = 64 \<and>
   set ''e3b0c44298fc1c149afbf4c8996fb92427ae41e4649b934ca495991b7852b855'' \<subseteq> set ''0123456789abcdef'' \<and>
   NewHash ''sha256:e3b0c44298fc1c149afbf4c8996fb92427ae41e4649b934ca495991b7852b855'' =
     (\<lparr>algorithm = ''sha256'',
       hex = ''e3b0c44298fc1c149afbf4c8996fb92427ae41e4649b934ca495991b7852b855''\<rparr>, None) \<and>
   String (fst (NewHash ''sha256:e3b0c44298fc1c149afbf4c8996fb92427ae41e4649b934ca495991b7852b855'')) =
     ''sha256:e3b0c44298fc1c149afbf4c8996fb92427ae41e4649b934ca495991b7852b855''"
  using parse_sha256_roundtrip
    [of "''e3b0c44298fc1c149afbf4c8996fb92427ae41e4649b934ca495991b7852b855''" Hash_zero]
  by (simp add: String_def Algorithm_def Hex_def)

text \<open>
  Claim C8. A string that has no colon, or two or more, does not split into exactly two
  parts, and parsing it fails with the error "too many parts in hash", an InvalidFormat
  error; the receiver of \<^verbatim>\<open>parse\<close> is left as it was.
\<close>

theorem parse_wrong_number_of_parts:
  assumes "count_list s (CHR '':'') \<noteq> 1"
  shows "parse h s = (h, Some (TooManyParts s)) \<and>
         NewHash s = (Hash_zero, Some (TooManyParts s)) \<and>
         kind_of (TooManyParts s) = InvalidFormat"
  using assms by (simp add: NewHash_def parse_too_many)

theorem parse_wrong_number_of_parts_witness:
  "count_list ''sha256deadbeef'' (CHR '':'') \<noteq> 1 \<and>
   count_list ''sha256:dead:beef'' (CHR '':'') \<noteq> 1 \<and>
   NewHash ''sha256deadbeef'' = (Hash_zero, Some (TooManyParts ''sha256deadbeef'')) \<and>
   NewHash ''sha256:dead:beef'' = (Hash_zero, Some (TooManyParts ''sha256:dead:beef''))"
  using parse_wrong_number_of_parts [of "''sha256deadbeef''" Hash_zero]
    parse_wrong_number_of_parts [of "''sha256:dead:beef''" Hash_zero]
  by simp

text \<open>
  Claim C3, amended. For every input \<open>algo + ":" + rest\<close> where \<open>algo\<close> is not "sha256",
  parsing fails. The error is UnsupportedAlgorithm exactly when neither part contains a
  colon and \<open>rest\<close> consists only of the characters 0123456789abcdef (of any length);
  with a colon in either part it is "too many parts", and otherwise it reports the first
  byte of \<open>rest\<close> outside 0123456789abcdef, both InvalidFormat.
\<close>

theorem parse_other_algorithm:
  assumes "algo \<noteq> ''sha256''"
  shows "\<exists>e. parse h (algo @ '':'' @ rest) = (h, Some e) \<and>
           e = (if CHR '':'' \<in> set algo \<or> CHR '':'' \<in> set rest
                then TooManyParts (algo @ '':'' @ rest)
                else case find (\<lambda>c. c \<notin> set ''0123456789abcdef'') rest of
                       Some c \<Rightarrow> NonHexCharacter c
                     | None \<Rightarrow> UnsupportedHashType algo) \<and>
           (kind_of e = UnsupportedAlgorithm \<longleftrightarrow>
              CHR '':'' \<notin> set algo \<and> CHR '':'' \<notin> set rest \<and> set rest \<subseteq> set ''0123456789abcdef'')"
proof (cases "CHR '':'' \<in> set algo \<or> CHR '':'' \<in> set rest")
  case True
  from parse_too_many [OF count_colons_append [OF True]] True show ?thesis
    by auto
next
  case False
  then have a: "CHR '':'' \<notin> set algo" and b: "CHR '':'' \<notin> set rest"
    by simp_all
  show ?thesis
  proof (cases "find (\<lambda>c. c \<notin> set ''0123456789abcdef'') rest")
    case None
    have "set rest \<subseteq> set ''0123456789abcdef''"
    proof (rule ccontr)
      assume "\<not> set rest \<subseteq> set ''0123456789abcdef''"
      from not_subset_find_Some [OF this] None show False
        by simp
    qed
    with parts_split [OF a b, of h] None assms False show ?thesis
      by (simp del: set_simps list.set)
  next
    case (Some c)
    then have "\<not> set rest \<subseteq> set ''0123456789abcdef''"
      by (rule find_Some_not_subset)
    with parts_split [OF a b, of h] Some False show ?thesis
      by (simp del: set_simps list.set)
  qed
qed

theorem parse_other_algorithm_witness:
  "''md5'' \<noteq> ''sha256'' \<and>
   parse Hash_zero ''md5:0123456789abcdef'' = (Hash_zero, Some (UnsupportedHashType ''md5'')) \<and>
   kind_of (UnsupportedHashType ''md5'') = UnsupportedAlgorithm"
  using parse_other_algorithm [of "''md5''" Hash_zero "''0123456789abcdef''"]
  by simp

text \<open>
  Claim C3 as stated fails: the characters after the colon are checked before the
  algorithm, so "md5:xyz" is rejected for the character x, an InvalidFormat error.
\<close>

theorem parse_other_algorithm_counterexample:
  "''md5'' \<noteq> ''sha256'' \<and>
   parse Hash_zero (''md5'' @ '':'' @ ''xyz'') = (Hash_zero, Some (NonHexCharacter (CHR ''x''))) \<and>
   kind_of (NonHexCharacter (CHR ''x'')) \<noteq> UnsupportedAlgorithm"
  using parts_split [of "''md5''" "''xyz''" Hash_zero] by simp

lemma fmt_c_ascii: "of_char b < RuneSelf \<Longrightarrow> fmt_c b = [b]"
  by (simp add: fmt_c_def EncodeRune_def RuneSelf_def)

text \<open>
  Claim C7, amended. For every string \<open>"sha256:" + x\<close> where \<open>x\<close> contains at least one
  character outside 0123456789abcdef (an uppercase letter is one), parsing fails with an
  InvalidFormat error. When \<open>x\<close> contains no colon and the first such character is an
  ASCII character, the error identifies that character: its text is "found non-hex
  character in hash: " followed by the character. When \<open>x\<close> contains a colon the error
  is "too many parts" and carries the whole input.
\<close>

theorem parse_non_hex:
  assumes "\<not> set x \<subseteq> set ''0123456789abcdef''"
  shows "\<exists>c e. find (\<lambda>b. b \<notin> set ''0123456789abcdef'') x = Some c \<and>
           parse h (''sha256:'' @ x) = (h, Some e) \<and>
           kind_of e = InvalidFormat \<and>
           (CHR '':'' \<in> set x \<longrightarrow> e = TooManyParts (''sha256:'' @ x)) \<and>
           (CHR '':'' \<notin> set x \<and> of_char c < RuneSelf \<longrightarrow>
              e = NonHexCharacter c \<and> Error e = ''found non-hex character in hash: '' @ [c])"
proof -
  from not_subset_find_Some [OF assms]
  obtain c where c: "find (\<lambda>b. b \<notin> set ''0123456789abcdef'') x = Some c" ..
  show ?thesis
  proof (cases "CHR '':'' \<in> set x")
    case True
    then have "count_list (''sha256'' @ '':'' @ x) (CHR '':'') \<noteq> 1"
      by (intro count_colons_append) simp
    from parse_too_many [OF this] c True show ?thesis
      by simp
  next
    case False
    with parts_split [of "''sha256''" x h] c
    have "parse h (''sha256:'' @ x) = (h, Some (NonHexCharacter c))"
      by simp
    with c False show ?thesis
      by (simp add: fmt_c_ascii)
  qed
qed

theorem parse_non_hex_witness:
  "\<not> set ''xyz0'' \<subseteq> set ''0123456789abcdef'' \<and>
   CHR '':'' \<notin> set ''xyz0'' \<and> of_char (CHR ''x'') < RuneSelf \<and>
   parse Hash_zero ''sha256:xyz0'' = (Hash_zero, Some (NonHexCharacter (CHR ''x''))) \<and>
   Error (NonHexCharacter (CHR ''x'')) = ''found non-hex character in hash: x'' \<and>
   parse Hash_zero ''sha256:0A'' = (Hash_zero, Some (NonHexCharacter (CHR ''A''))) \<and>
   kind_of (NonHexCharacter (CHR ''x'')) = InvalidFormat"
  using parse_non_hex [of "''xyz0''" Hash_zero] parse_non_hex [of "''0A''" Hash_zero]
  by (simp add: RuneSelf_def)

text \<open>
  Claim C7 as stated fails when the hex part contains a colon: "sha256:g:" has three
  parts, and the error carries the whole input, not the character g.
\<close>

theorem parse_non_hex_counterexample:
  "\<not> set ''g:'' \<subseteq> set ''0123456789abcdef'' \<and>
   find (\<lambda>c. c \<notin> set ''0123456789abcdef'') ''g:'' = Some (CHR ''g'') \<and>
   parse Hash_zero (''sha256:'' @ ''g:'') = (Hash_zero, Some (TooManyParts ''sha256:g:'')) \<and>
   TooManyParts ''sha256:g:'' \<noteq> NonHexCharacter (CHR ''g'')"
  using parse_too_many [of "''sha256:g:''" Hash_zero] by simp

text \<open>
  A character of several bytes is outside the amended claim: \<^verbatim>\<open>rest[0]\<close> is its first
  byte, and \<^verbatim>\<open>%c\<close> prints the character with the number of that byte. For e-acute
  (bytes C3 A9) and for o-umlaut (bytes C3 B6) alike the text ends with U+00C3 (bytes
  C3 83), a character of neither input.
\<close>

lemma parse_non_hex_several_bytes:
  "parse Hash_zero (''sha256:'' @ [CHR 0xC3, CHR 0xA9]) = (Hash_zero, Some (NonHexCharacter (CHR 0xC3))) \<and>
   parse Hash_zero (''sha256:'' @ [CHR 0xC3, CHR 0xB6]) = (Hash_zero, Some (NonHexCharacter (CHR 0xC3))) \<and>
   Error (NonHexCharacter (CHR 0xC3)) = ''found non-hex character in hash: '' @ [CHR 0xC3, CHR 0x83]"
proof -
  have "parse Hash_zero (''sha256'' @ '':'' @ [CHR 0xC3, CHR 0xA9]) =
      (Hash_zero, Some (NonHexCharacter (CHR 0xC3)))"
    by (subst parts_split) simp_all
  moreover have "parse Hash_zero (''sha256'' @ '':'' @ [CHR 0xC3, CHR 0xB6]) =
      (Hash_zero, Some (NonHexCharacter (CHR 0xC3)))"
    by (subst parts_split) simp_all
  moreover have "fmt_c (CHR 0xC3) = [CHR 0xC3, CHR 0x83]"
    by code_simp
  ultimately show ?thesis
    by simp
qed

subsection \<open>JSON\<close>

lemma list_all_subset: "set s \<subseteq> set cs \<Longrightarrow> list_all P cs \<Longrightarrow> list_all P s"
  by (auto simp: list_all_iff)

lemma htmlSafeSet_plain:
  assumes "htmlSafeSet (of_char c)"
  shows "of_char c < RuneSelf" and "c \<noteq> CHR 0x22" and "c \<noteq> CHR 0x5C" and "c \<noteq> CHR 0x0A"
  using assms by (auto simp: htmlSafeSet_def RuneSelf_def)

lemma encode_string_safe:
  "list_all (\<lambda>c. htmlSafeSet (of_char c)) s \<Longrightarrow> encode_string s = s"
proof (induction s)
  case Nil
  show ?case
    by (subst encode_string.simps) simp
next
  case (Cons c s)
  then have "htmlSafeSet (of_char c)" and IH: "encode_string s = s"
    by simp_all
  then show ?case
    by (subst encode_string.simps) (simp add: htmlSafeSet_plain(1) IH)
qed

lemma ValidString_ascii:
  "list_all (\<lambda>c. of_char c < RuneSelf) s \<Longrightarrow> ValidString s"
proof (induction s)
  case Nil
  show ?case
    by (subst ValidString.simps) simp
next
  case (Cons c s)
  then have c: "of_char c < RuneSelf" and IH: "ValidString s"
    by simp_all
  have "DecodeRuneInString (c # s) = (of_char c, 1)"
    using c by (simp add: DecodeRuneInString_def)
  moreover from c have "of_char c \<noteq> RuneError"
    by (simp add: RuneSelf_def RuneError_def)
  ultimately show ?case
    using IH by (subst ValidString.simps) simp
qed

lemma index_end: "c \<notin> set s \<Longrightarrow> index (s @ [c]) c = Some (length s)"
  by (simp add: index_def takeWhile_until)

lemma Unquote_plain:
  assumes "list_all (\<lambda>c. htmlSafeSet (of_char c)) s"
  shows "Unquote ([CHR 0x22] @ s @ [CHR 0x22]) = Inr s"
proof -
  from assms have safe: "htmlSafeSet (of_char c)" if "c \<in> set s" for c
    using that by (simp add: list_all_iff)
  have q: "CHR 0x22 \<notin> set s"
    using safe htmlSafeSet_plain(2) by blast
  have b: "CHR 0x5C \<notin> set s"
    using safe htmlSafeSet_plain(3) by blast
  have n: "CHR 0x0A \<notin> set s"
    using safe htmlSafeSet_plain(4) by blast
  have a: "list_all (\<lambda>c. of_char c < RuneSelf) s"
    using safe htmlSafeSet_plain(1) by (simp add: list_all_iff)
  have "unquote ([CHR 0x22] @ s @ [CHR 0x22]) = (s, [], None)"
    using q b n ValidString_ascii [OF a]
    by (simp add: unquote_def index_end contains_def Let_def)
  then show ?thesis
    by (simp add: Unquote_def)
qed

lemma safe_sha256_prefix: "list_all (\<lambda>c. htmlSafeSet (of_char c)) ''sha256:''"
  by (simp add: htmlSafeSet_def)

lemma safe_hex_digits: "list_all (\<lambda>c. htmlSafeSet (of_char c)) ''0123456789abcdef''"
  by (simp add: htmlSafeSet_def)

lemma invariants_iff:
  "invariants h \<longleftrightarrow>
     algorithm h = ''sha256'' \<and> length (hex h) = 64 \<and> set (hex h) \<subseteq> set ''0123456789abcdef''"
  unfolding invariants_def by (auto simp del: list.set set_simps)

lemma parse_valid_text:
  assumes "length x = 64" and "set x \<subseteq> set ''0123456789abcdef''"
  shows "parse h0 (''sha256:'' @ x) = (\<lparr>algorithm = ''sha256'', hex = x\<rparr>, None)"
proof -
  have "CHR '':'' \<notin> set x"
    using assms(2) colon_not_hex by (rule subset_not_mem)
  moreover have "find (\<lambda>c. c \<notin> set ''0123456789abcdef'') x = None"
    using assms(2) by (rule find_None_subset)
  ultimately show ?thesis
    using parts_split [of "''sha256''" x h0] assms(1) by simp
qed

text \<open>
  Claim C4. For every hash that satisfies the invariants, \<^verbatim>\<open>MarshalJSON\<close> returns no
  error, and \<^verbatim>\<open>UnmarshalJSON\<close> of the bytes it returns succeeds, whatever the receiver
  held, and leaves a hash with the algorithm and hex of the original.
\<close>

theorem json_roundtrip:
  assumes "invariants h"
  shows "snd (MarshalJSON h) = None \<and>
         UnmarshalJSON h0 (fst (MarshalJSON h)) = (h, None) \<and>
         Algorithm (fst (UnmarshalJSON h0 (fst (MarshalJSON h)))) = Algorithm h \<and>
         Hex (fst (UnmarshalJSON h0 (fst (MarshalJSON h)))) = Hex h"
proof -
  from assms have alg: "algorithm h = ''sha256''" and len: "length (hex h) = 64"
    and dig: "set (hex h) \<subseteq> set ''0123456789abcdef''"
    by (simp_all only: invariants_iff)
  have str: "String h = ''sha256:'' @ hex h"
    by (simp add: String_def Algorithm_def Hex_def alg)
  have "list_all (\<lambda>c. htmlSafeSet (of_char c)) (hex h)"
    using dig safe_hex_digits by (rule list_all_subset)
  with safe_sha256_prefix have safe: "list_all (\<lambda>c. htmlSafeSet (of_char c)) (String h)"
    unfolding str by (simp only: list_all_append)
  have m: "MarshalJSON h = ([CHR 0x22] @ String h @ [CHR 0x22], None)"
    by (simp add: MarshalJSON_def Marshal_def encode_string_safe [OF safe])
  have "UnmarshalJSON h0 ([CHR 0x22] @ String h @ [CHR 0x22]) = parse h0 (String h)"
    by (simp only: UnmarshalJSON_def Unquote_plain [OF safe] sum.case)
  also have "\<dots> = (\<lparr>algorithm = ''sha256'', hex = hex h\<rparr>, None)"
    unfolding str using len dig by (rule parse_valid_text)
  also have "\<lparr>algorithm = ''sha256'', hex = hex h\<rparr> = h"
    using alg by simp
  finally have u: "UnmarshalJSON h0 (fst (MarshalJSON h)) = (h, None)"
    by (simp add: m)
  from m u show ?thesis
    by simp
qed

theorem json_roundtrip_witness:
  "invariants \<lparr>algorithm = ''sha256'',
      hex = ''e3b0c44298fc1c149afbf4c8996fb92427ae41e4649b934ca495991b7852b855''\<rparr> \<and>
   UnmarshalJSON Hash_zero (fst (MarshalJSON \<lparr>algorithm = ''sha256'',
      hex = ''e3b0c44298fc1c149afbf4c8996fb92427ae41e4649b934ca495991b7852b855''\<rparr>)) =
     (\<lparr>algorithm = ''sha256'',
       hex = ''e3b0c44298fc1c149afbf4c8996fb92427ae41e4649b934ca495991b7852b855''\<rparr>, None)"
proof -
  have i: "invariants \<lparr>algorithm = ''sha256'',
      hex = ''e3b0c44298fc1c149afbf4c8996fb92427ae41e4649b934ca495991b7852b855''\<rparr>"
    by (simp add: invariants_def)
  from json_roundtrip [OF i, of Hash_zero] i show ?thesis
    by simp
qed

text \<open>
  What \<^verbatim>\<open>UnmarshalJSON\<close> rejects before parsing: the only error of the unquoting is
  \<^verbatim>\<open>strconv.ErrSyntax\<close>, and an input that does not start with one of the three quote
  characters (as every JSON value that is not a string) has it, with the receiver
  untouched.
\<close>

lemma Unquote_error: "Unquote data = Inl e \<Longrightarrow> e = ErrSyntax"
  by (auto simp: Unquote_def unquote_def Let_def split: if_splits option.splits prod.splits)

lemma Unquote_not_literal:
  assumes "length data < 2 \<or> (data ! 0 \<noteq> CHR 0x22 \<and> data ! 0 \<noteq> CHR 0x27 \<and> data ! 0 \<noteq> CHR 0x60)"
  shows "Unquote data = Inl ErrSyntax"
proof -
  have "unquote data = ([], data, Some ErrSyntax)"
  proof (cases "length data < 2")
    case True
    then show ?thesis
      by (simp add: unquote_def)
  next
    case False
    with assms have "data ! 0 \<noteq> CHR 0x22" and "data ! 0 \<noteq> CHR 0x27" and "data ! 0 \<noteq> CHR 0x60"
      by simp_all
    with False show ?thesis
      by (simp add: unquote_def Let_def split: option.splits)
  qed
  then show ?thesis
    by (simp add: Unquote_def)
qed

lemma UnmarshalJSON_not_literal:
  assumes "length data < 2 \<or> (data ! 0 \<noteq> CHR 0x22 \<and> data ! 0 \<noteq> CHR 0x27 \<and> data ! 0 \<noteq> CHR 0x60)"
  shows "UnmarshalJSON h data = (h, Some ErrSyntax)"
  by (simp add: UnmarshalJSON_def Unquote_not_literal [OF assms])

text \<open>
  Claim C9, amended. On the inputs that the contract of \<^verbatim>\<open>json.Unmarshaler\<close> gives it,
  JSON values, \<^verbatim>\<open>UnmarshalJSON\<close> accepts only strings. A JSON value that is not a string
  (an object, an array, a number, true, false or null) begins with one of the bytes
  \<^verbatim>\<open>{[-0123456789tfn\<close>; every such input, and more generally every input shorter than
  two bytes or not beginning with a quote character, fails with \<^verbatim>\<open>strconv.ErrSyntax\<close>, a
  MalformedJSON error, before any parsing of the text, and leaves the receiver as it
  was. Every failure of the unquoting is that error. An input that is accepted begins
  with a quote character, and its unquoted text is what \<^verbatim>\<open>parse\<close> accepted.
\<close>

theorem UnmarshalJSON_rejects_non_strings:
  "(data \<noteq> [] \<and> data ! 0 \<in> set ''{[-0123456789tfn'' \<longrightarrow>
      UnmarshalJSON h data = (h, Some ErrSyntax)) \<and>
   (length data < 2 \<or> (data ! 0 \<noteq> CHR 0x22 \<and> data ! 0 \<noteq> CHR 0x27 \<and> data ! 0 \<noteq> CHR 0x60) \<longrightarrow>
      UnmarshalJSON h data = (h, Some ErrSyntax)) \<and>
   (Unquote data = Inl e \<longrightarrow> UnmarshalJSON h data = (h, Some ErrSyntax)) \<and>
   kind_of ErrSyntax = MalformedJSON \<and>
   (UnmarshalJSON h data = (h', None) \<longrightarrow>
      2 \<le> length data \<and>
      (data ! 0 = CHR 0x22 \<or> data ! 0 = CHR 0x27 \<or> data ! 0 = CHR 0x60) \<and>
      (\<exists>s. Unquote data = Inr s \<and> parse h s = (h', None)))"
proof -
  have a: "UnmarshalJSON h data = (h, Some ErrSyntax)"
    if "data \<noteq> [] \<and> data ! 0 \<in> set ''{[-0123456789tfn''"
  proof -
    from that have "data ! 0 \<noteq> CHR 0x22 \<and> data ! 0 \<noteq> CHR 0x27 \<and> data ! 0 \<noteq> CHR 0x60"
      by auto
    then show ?thesis
      by (intro UnmarshalJSON_not_literal) simp
  qed
  have b: "UnmarshalJSON h data = (h, Some ErrSyntax)"
    if "length data < 2 \<or> (data ! 0 \<noteq> CHR 0x22 \<and> data ! 0 \<noteq> CHR 0x27 \<and> data ! 0 \<noteq> CHR 0x60)"
    using that by (rule UnmarshalJSON_not_literal)
  have c: "UnmarshalJSON h data = (h, Some ErrSyntax)" if "Unquote data = Inl e"
    using that Unquote_error [OF that] by (simp add: UnmarshalJSON_def)
  have d: "2 \<le> length data \<and>
      (data ! 0 = CHR 0x22 \<or> data ! 0 = CHR 0x27 \<or> data ! 0 = CHR 0x60) \<and>
      (\<exists>s. Unquote data = Inr s \<and> parse h s = (h', None))"
    if ok: "UnmarshalJSON h data = (h', None)"
  proof -
    have "\<not> (length data < 2 \<or> (data ! 0 \<noteq> CHR 0x22 \<and> data ! 0 \<noteq> CHR 0x27 \<and> data ! 0 \<noteq> CHR 0x60))"
    proof
      assume "length data < 2 \<or> (data ! 0 \<noteq> CHR 0x22 \<and> data ! 0 \<noteq> CHR 0x27 \<and> data ! 0 \<noteq> CHR 0x60)"
      from UnmarshalJSON_not_literal [OF this, of h] ok show False
        by simp
    qed
    moreover from ok have "\<exists>s. Unquote data = Inr s \<and> parse h s = (h', None)"
      by (auto simp: UnmarshalJSON_def split: sum.splits)
    ultimately show ?thesis
      by auto
  qed
  from a b c d show ?thesis
    by simp
qed

theorem UnmarshalJSON_rejects_non_strings_witness:
  "UnmarshalJSON Hash_zero ''null'' = (Hash_zero, Some ErrSyntax) \<and>
   UnmarshalJSON Hash_zero ''123'' = (Hash_zero, Some ErrSyntax) \<and>
   UnmarshalJSON Hash_zero ''{}'' = (Hash_zero, Some ErrSyntax) \<and>
   kind_of ErrSyntax = MalformedJSON \<and>
   UnmarshalJSON Hash_zero
     ([CHR 0x22] @ ''sha256:e3b0c44298fc1c149afbf4c8996fb92427ae41e4649b934ca495991b7852b855'' @ [CHR 0x22]) =
     (\<lparr>algorithm = ''sha256'',
       hex = ''e3b0c44298fc1c149afbf4c8996fb92427ae41e4649b934ca495991b7852b855''\<rparr>, None) \<and>
   Unquote ([CHR 0x22] @ ''sha256:e3b0c44298fc1c149afbf4c8996fb92427ae41e4649b934ca495991b7852b855'' @ [CHR 0x22]) =
     Inr ''sha256:e3b0c44298fc1c149afbf4c8996fb92427ae41e4649b934ca495991b7852b855''"
proof -
  let ?x = "''e3b0c44298fc1c149afbf4c8996fb92427ae41e4649b934ca495991b7852b855''"
  have p: "parse Hash_zero (''sha256:'' @ ?x) = (\<lparr>algorithm = ''sha256'', hex = ?x\<rparr>, None)"
    by (rule parse_valid_text) simp_all
  have "list_all (\<lambda>c. htmlSafeSet (of_char c)) (''sha256:'' @ ?x)"
    by (simp add: htmlSafeSet_def)
  note u = Unquote_plain [OF this]
  then have "UnmarshalJSON Hash_zero ([CHR 0x22] @ (''sha256:'' @ ?x) @ [CHR 0x22]) =
      parse Hash_zero (''sha256:'' @ ?x)"
    by (simp only: UnmarshalJSON_def sum.case)
  with p have ok: "UnmarshalJSON Hash_zero ([CHR 0x22] @ (''sha256:'' @ ?x) @ [CHR 0x22]) =
      (\<lparr>algorithm = ''sha256'', hex = ?x\<rparr>, None)"
    by simp
  from UnmarshalJSON_rejects_non_strings [of "''null''" Hash_zero]
    UnmarshalJSON_rejects_non_strings [of "''123''" Hash_zero]
    UnmarshalJSON_rejects_non_strings [of "''{}''" Hash_zero]
    UnmarshalJSON_rejects_non_strings
      [of "[CHR 0x22] @ (''sha256:'' @ ?x) @ [CHR 0x22]" Hash_zero _ "\<lparr>algorithm = ''sha256'', hex = ?x\<rparr>"]
    ok u
  show ?thesis
    by simp
qed

text \<open>
  Claim C9 as stated, for every sequence of bytes, fails on bytes that are no JSON value:
  \<^verbatim>\<open>strconv.Unquote\<close> reads Go literals, so a raw string between back quotes is accepted,
  and a character between single quotes is unquoted and then fails in \<^verbatim>\<open>parse\<close>.
\<close>

theorem UnmarshalJSON_accepts_raw_string:
  "UnmarshalJSON Hash_zero
     ([CHR 0x60] @ ''sha256:e3b0c44298fc1c149afbf4c8996fb92427ae41e4649b934ca495991b7852b855'' @ [CHR 0x60]) =
     (\<lparr>algorithm = ''sha256'',
       hex = ''e3b0c44298fc1c149afbf4c8996fb92427ae41e4649b934ca495991b7852b855''\<rparr>, None) \<and>
   UnmarshalJSON Hash_zero [CHR 0x27, CHR ''a'', CHR 0x27] = (Hash_zero, Some (TooManyParts ''a'')) \<and>
   kind_of (TooManyParts ''a'') \<noteq> MalformedJSON"
proof -
  let ?x = "''e3b0c44298fc1c149afbf4c8996fb92427ae41e4649b934ca495991b7852b855''"
  have "unquote ([CHR 0x60] @ (''sha256:'' @ ?x) @ [CHR 0x60]) = (''sha256:'' @ ?x, [], None)"
    by (simp add: unquote_def index_def contains_def Let_def)
  then have "Unquote ([CHR 0x60] @ (''sha256:'' @ ?x) @ [CHR 0x60]) = Inr (''sha256:'' @ ?x)"
    by (simp add: Unquote_def)
  moreover have "parse Hash_zero (''sha256:'' @ ?x) = (\<lparr>algorithm = ''sha256'', hex = ?x\<rparr>, None)"
    by (rule parse_valid_text) simp_all
  ultimately have raw: "UnmarshalJSON Hash_zero ([CHR 0x60] @ (''sha256:'' @ ?x) @ [CHR 0x60]) =
      (\<lparr>algorithm = ''sha256'', hex = ?x\<rparr>, None)"
    by (simp only: UnmarshalJSON_def sum.case)
  have "DecodeRuneInString ''a'' = (97, 1)"
    by (simp add: DecodeRuneInString_def RuneSelf_def)
  then have "unquote [CHR 0x27, CHR ''a'', CHR 0x27] = (''a'', [], None)"
    by (simp add: unquote_def index_def contains_def Let_def RuneError_def)
  then have "Unquote [CHR 0x27, CHR ''a'', CHR 0x27] = Inr ''a''"
    by (simp add: Unquote_def)
  moreover have "parse Hash_zero ''a'' = (Hash_zero, Some (TooManyParts ''a''))"
    by (rule parse_too_many) simp
  ultimately have char: "UnmarshalJSON Hash_zero [CHR 0x27, CHR ''a'', CHR 0x27] =
      (Hash_zero, Some (TooManyParts ''a''))"
    by (simp only: UnmarshalJSON_def sum.case)
  from raw char show ?thesis
    by simp
qed

subsection \<open>Reading a stream to its end\<close>

lemma Read_calls: "Read src = (res, src') \<Longrightarrow> calls src' = calls src @ [ReadCall]"
  by (auto simp: Read_def split: list.splits)

lemma copyBuffer_calls:
  "\<exists>k. calls (fst (snd (copyBuffer dst src written))) = calls src @ replicate k ReadCall"
proof (induction dst src written rule: copyBuffer.induct)
  case (1 dst src written)
  obtain p er src' where R: "Read src = ((p, er), src')"
    by (metis surj_pair)
  note c = Read_calls [OF R]
  show ?case
  proof (cases er)
    case None
    let ?dst = "if 0 < length p then Write dst p else dst"
    let ?written = "if 0 < length p then written + of_nat (length p) else written"
    have step: "copyBuffer dst src written = copyBuffer ?dst src' ?written"
      by (subst copyBuffer.simps) (simp add: R None Let_def)
    from "1" [OF R [symmetric] refl refl refl refl None]
    obtain k where "calls (fst (snd (copyBuffer ?dst src' ?written))) = calls src' @ replicate k ReadCall" ..
    with c step have "calls (fst (snd (copyBuffer dst src written))) = calls src @ replicate (Suc k) ReadCall"
      by (simp add: replicate_append_same)
    then show ?thesis ..
  next
    case (Some e)
    have "calls (fst (snd (copyBuffer dst src written))) = calls src @ replicate 1 ReadCall"
      by (subst copyBuffer.simps) (simp add: R Some c Let_def)
    then show ?thesis ..
  qed
qed

lemma copyBuffer_fail:
  assumes "list_all (\<lambda>res. snd res = None) pre" and "e \<noteq> EOF"
  shows "snd (snd (snd (copyBuffer d \<lparr>results = pre @ (p, Some e) # rest, calls = cs\<rparr> n))) = Some e"
  using assms(1)
proof (induction pre arbitrary: d cs n)
  case Nil
  show ?case
    using assms(2) by (subst copyBuffer.simps) (simp add: Read_def Let_def)
next
  case (Cons res pre)
  obtain q where res: "res = (q, None)"
    using Cons.prems by (cases res) simp
  from Cons.prems have "list_all (\<lambda>res. snd res = None) pre"
    by simp
  note IH = Cons.IH [OF this]
  show ?case
    by (subst copyBuffer.simps) (simp add: Read_def Let_def res IH)
qed

lemma copyBuffer_no_bytes:
  assumes "list_all (\<lambda>res. fst res = [] \<and> (snd res = None \<or> snd res = Some EOF)) rs"
  shows "\<exists>r'. copyBuffer d \<lparr>results = rs, calls = cs\<rparr> n = (d, r', n, None)"
  using assms
proof (induction rs arbitrary: cs)
  case Nil
  show ?case
    by (subst copyBuffer.simps) (simp add: Read_def)
next
  case (Cons res rs)
  then obtain er where res: "res = ([], er)" and er: "er = None \<or> er = Some EOF"
    by (cases res) auto
  from Cons.prems have "list_all (\<lambda>res. fst res = [] \<and> (snd res = None \<or> snd res = Some EOF)) rs"
    by simp
  note IH = Cons.IH [OF this]
  from er show ?case
  proof
    assume "er = None"
    with IH [of "cs @ [ReadCall]"] show ?thesis
      by (subst copyBuffer.simps) (simp add: Read_def res)
  next
    assume "er = Some EOF"
    then show ?thesis
      by (subst copyBuffer.simps) (simp add: Read_def res)
  qed
qed

text \<open>
  Claim C6. SHA256 closes the stream exactly once on every path: whatever the reads
  return, the calls made on the stream are some reads followed by one \<^verbatim>\<open>Close\<close>, so the
  stream is closed once when the whole stream is read and once when a read fails, and it
  is closed already when the error reaches the caller.
\<close>

theorem SHA256_closes_once:
  "(\<exists>k. calls (snd (SHA256 r)) = calls r @ replicate k ReadCall @ [CloseCall]) \<and>
   count_list (calls (snd (SHA256 r))) CloseCall = Suc (count_list (calls r) CloseCall)"
proof -
  obtain hasher' r' n err where C: "Copy New r = (hasher', r', n, err)"
    by (metis surj_pair)
  from copyBuffer_calls [of New r 0] C obtain k where k: "calls r' = calls r @ replicate k ReadCall"
    by (auto simp: Copy_def)
  have s: "snd (SHA256 r) = Close r'"
    by (simp add: SHA256_def C)
  have "count_list (replicate k ReadCall) CloseCall = 0"
    by (simp add: count_list_0_iff)
  with k s show ?thesis
    by (simp add: Close_def)
qed

theorem SHA256_closes_once_witness:
  "calls (snd (SHA256 \<lparr>results = [([0x61, 0x62, 0x63], None), ([0x64, 0x65], Some (ReadError ''boom''))],
                   calls = []\<rparr>)) = [ReadCall, ReadCall, CloseCall] \<and>
   calls (snd (SHA256 \<lparr>results = [], calls = []\<rparr>)) = [ReadCall, CloseCall]"
  using SHA256_closes_once
    [of "\<lparr>results = [([0x61, 0x62, 0x63], None), ([0x64, 0x65], Some (ReadError ''boom''))], calls = []\<rparr>"]
  by (simp add: SHA256_def Copy_def copyBuffer.simps Read_def Close_def)

text \<open>
  Claim C10. When SHA256 returns an error the byte count it returns is 0 (and the hash is
  the zero value), also when bytes were read and hashed before the failing read; a count
  other than 0 comes only with no error.
\<close>

theorem SHA256_error_count_zero:
  "(SHA256 r = ((h, n, Some e), r') \<longrightarrow> n = 0 \<and> h = Hash_zero) \<and>
   (SHA256 r = ((h, n, err), r') \<and> n \<noteq> 0 \<longrightarrow> err = None) \<and>
   (list_all (\<lambda>res. snd res = None) pre \<and> e \<noteq> EOF \<longrightarrow>
      fst (SHA256 \<lparr>results = pre @ (p, Some e) # rest, calls = cs\<rparr>) = (Hash_zero, 0, Some e))"
proof -
  have a: "n = 0 \<and> h = Hash_zero" if "SHA256 r = ((h, n, Some e), r')"
    using that by (auto simp: SHA256_def split: prod.splits option.splits)
  have b: "err = None" if "SHA256 r = ((h, n, err), r') \<and> n \<noteq> 0"
    using that by (auto simp: SHA256_def split: prod.splits option.splits)
  have c: "fst (SHA256 \<lparr>results = pre @ (p, Some e) # rest, calls = cs\<rparr>) = (Hash_zero, 0, Some e)"
    if "list_all (\<lambda>res. snd res = None) pre \<and> e \<noteq> EOF"
  proof -
    from that
    have "snd (snd (snd (Copy New \<lparr>results = pre @ (p, Some e) # rest, calls = cs\<rparr>))) = Some e"
      by (simp add: Copy_def copyBuffer_fail)
    then show ?thesis
      by (auto simp: SHA256_def split: prod.splits option.splits)
  qed
  from a b c show ?thesis
    by blast
qed

theorem SHA256_error_count_zero_witness:
  "list_all (\<lambda>res. snd res = None) [([0x61, 0x62, 0x63], None)] \<and>
   ReadError ''boom'' \<noteq> EOF \<and>
   SHA256 \<lparr>results = [([0x61, 0x62, 0x63], None), ([0x64, 0x65], Some (ReadError ''boom''))],
            calls = []\<rparr> =
     ((Hash_zero, 0, Some (ReadError ''boom'')),
      \<lparr>results = [], calls = [ReadCall, ReadCall, CloseCall]\<rparr>)"
proof -
  have "SHA256 \<lparr>results = [([0x61, 0x62, 0x63], None), ([0x64, 0x65], Some (ReadError ''boom''))],
            calls = []\<rparr> =
     ((Hash_zero, 0, Some (ReadError ''boom'')),
      \<lparr>results = [], calls = [ReadCall, ReadCall, CloseCall]\<rparr>)"
    by (simp add: SHA256_def Copy_def copyBuffer.simps Read_def Close_def)
  with SHA256_error_count_zero
    [of "\<lparr>results = [([0x61, 0x62, 0x63], None), ([0x64, 0x65], Some (ReadError ''boom''))],
          calls = []\<rparr>"
        Hash_zero 0 "ReadError ''boom''" "\<lparr>results = [], calls = [ReadCall, ReadCall, CloseCall]\<rparr>"
        "Some (ReadError ''boom'')" "[([0x61, 0x62, 0x63], None)]" "[0x64, 0x65]" "[]" "[]"]
  show ?thesis
    by simp
qed

subsection \<open>What a successful call returns\<close>

lemma TrimLeft_Nil_subset: "TrimLeft s cutset = [] \<Longrightarrow> set s \<subseteq> set cutset"
  by (auto simp: TrimLeft_def dropWhile_eq_Nil_conv)

lemma parse_success:
  assumes "parse h0 s = (h, None)"
  shows "algorithm h = ''sha256'' \<and> length (hex h) = 64 \<and> set (hex h) \<subseteq> set ''0123456789abcdef''"
proof -
  let ?parts = "Split s (CHR '':'')"
  from assms have "TrimLeft (?parts ! 1) ''0123456789abcdef'' = []"
    and "?parts ! 0 = ''sha256''" and "length (?parts ! 1) = 64"
    and "h = h0\<lparr>algorithm := ?parts ! 0, hex := ?parts ! 1\<rparr>"
    by (auto simp: parse_def Let_def simp del: list.set set_simps split: if_splits)
  with TrimLeft_Nil_subset [of "?parts ! 1" "''0123456789abcdef''"] show ?thesis
    by (simp del: list.set set_simps)
qed

lemma nibble_high: "unat (drop_bit 4 (v :: byte)) < 16"
proof -
  have "unat v < 256"
    using unsigned_less [of v, where 'a = nat] by simp
  then show ?thesis
    by (simp add: drop_bit_eq_div unat_div)
qed

lemma nibble_low: "unat ((v :: byte) AND 0x0F) < 16"
proof -
  have "unat (v AND 0x0F) \<le> unat (0x0F :: byte)"
    by (rule word_and_le1 [THEN word_le_nat_alt [THEN iffD1]])
  then show ?thesis
    by simp
qed

lemma length_EncodeToString: "length (EncodeToString src) = 2 * length src"
  by (induction src) (simp_all add: EncodeToString_def)

lemma hextable_nth: "i < 16 \<Longrightarrow> hextable ! i \<in> set ''0123456789abcdef''"
proof -
  assume "i < 16"
  then have "i < length hextable"
    by (simp add: hextable_def)
  then have "hextable ! i \<in> set hextable"
    by (rule nth_mem)
  then show ?thesis
    by (simp only: hextable_def)
qed

lemma set_EncodeToString: "set (EncodeToString src) \<subseteq> set ''0123456789abcdef''"
proof (induction src)
  case Nil
  show ?case
    by (simp add: EncodeToString_def)
next
  case (Cons v src)
  have "EncodeToString (v # src) =
      hextable ! unat (drop_bit 4 v) # hextable ! unat (v AND 0x0F) # EncodeToString src"
    by (simp add: EncodeToString_def)
  with Cons hextable_nth [OF nibble_high [of v]] hextable_nth [OF nibble_low [of v]]
  show ?case
    by (simp del: list.set set_simps add: list.set(2))
qed

lemma length_checkSum: "length (checkSum d) = 32"
  by (simp add: checkSum_def PutUint32_def Let_def split: prod.splits)

subsection \<open>The digest of no bytes\<close>

text \<open>The SHA-256 digest of the empty message, computed by the model of crypto/sha256.\<close>

lemma Sum_New:
  "EncodeToString (Sum New []) = ''e3b0c44298fc1c149afbf4c8996fb92427ae41e4649b934ca495991b7852b855''"
  by code_simp

text \<open>
  Claim C2, amended. Computing the SHA-256 digest over an empty byte stream (every read
  gives no bytes, with no error or \<^verbatim>\<open>io.EOF\<close>) returns a hash with algorithm "sha256" and
  the 64 characters e3b0c44298fc1c149afbf4c8996fb92427ae41e4649b934ca495991b7852b855 as
  hex, a byte count of 0 and no error.
\<close>

theorem SHA256_empty_stream:
  assumes "list_all (\<lambda>res. fst res = [] \<and> (snd res = None \<or> snd res = Some EOF)) (results r)"
  shows "fst (SHA256 r) =
    (\<lparr>algorithm = ''sha256'',
      hex = ''e3b0c44298fc1c149afbf4c8996fb92427ae41e4649b934ca495991b7852b855''\<rparr>, 0, None)"
proof -
  obtain rs cs where r: "r = \<lparr>results = rs, calls = cs\<rparr>"
    by (cases r) simp
  from assms have "list_all (\<lambda>res. fst res = [] \<and> (snd res = None \<or> snd res = Some EOF)) rs"
    by (simp add: r)
  from copyBuffer_no_bytes [OF this, of New cs 0]
  obtain r' where "copyBuffer New \<lparr>results = rs, calls = cs\<rparr> 0 = (New, r', 0, None)" ..
  then have "Copy New r = (New, r', 0, None)"
    by (simp add: Copy_def r)
  then show ?thesis
    by (simp add: SHA256_def Sum_New)
qed

theorem SHA256_empty_stream_witness:
  "list_all (\<lambda>res. fst res = [] \<and> (snd res = None \<or> snd res = Some EOF))
     (results \<lparr>results = [([], None), ([], Some EOF)], calls = []\<rparr>) \<and>
   fst (SHA256 \<lparr>results = [([], None), ([], Some EOF)], calls = []\<rparr>) =
    (\<lparr>algorithm = ''sha256'',
      hex = ''e3b0c44298fc1c149afbf4c8996fb92427ae41e4649b934ca495991b7852b855''\<rparr>, 0, None)"
proof -
  have a: "list_all (\<lambda>res. fst res = [] \<and> (snd res = None \<or> snd res = Some EOF))
     (results \<lparr>results = [([], None), ([], Some EOF)], calls = []\<rparr>)"
    by simp
  from SHA256_empty_stream [OF a] a show ?thesis
    by (simp only: simp_thms)
qed

text \<open>
  Claim C2 as stated fails: the hex it gives has 63 characters, the last 5 of the digest
  is missing.
\<close>

theorem SHA256_empty_stream_counterexample:
  "fst (SHA256 \<lparr>results = [], calls = []\<rparr>) \<noteq>
    (\<lparr>algorithm = ''sha256'',
      hex = ''e3b0c44298fc1c149afbf4c8996fb92427ae41e4649b934ca495991b7852b85''\<rparr>, 0, None)"
proof -
  have "fst (SHA256 \<lparr>results = [], calls = []\<rparr>) =
    (\<lparr>algorithm = ''sha256'',
      hex = ''e3b0c44298fc1c149afbf4c8996fb92427ae41e4649b934ca495991b7852b855''\<rparr>, 0, None)"
    by (simp add: SHA256_def Copy_def copyBuffer.simps Read_def Sum_New)
  then show ?thesis
    by simp
qed

subsection \<open>The invariants\<close>

text \<open>
  Claim C5, amended. Every hash that \<^verbatim>\<open>parse\<close>, \<^verbatim>\<open>NewHash\<close>, \<^verbatim>\<open>UnmarshalJSON\<close> or
  \<^verbatim>\<open>SHA256\<close> returns with no error satisfies the invariants: its algorithm is "sha256"
  and its hex is 64 characters of 0123456789abcdef.
\<close>

theorem successful_results_satisfy_invariants:
  "(parse h0 s = (h, None) \<longrightarrow> invariants h) \<and>
   (NewHash s = (h, None) \<longrightarrow> invariants h) \<and>
   (UnmarshalJSON h0 data = (h, None) \<longrightarrow> invariants h) \<and>
   (SHA256 r = ((h, n, None), r') \<longrightarrow> invariants h)"
proof -
  have p: "invariants h" if "parse h1 t = (h, None)" for h1 t
    using parse_success [OF that] by (simp only: invariants_iff)
  have a: "invariants h" if "NewHash s = (h, None)"
  proof -
    from that have "parse Hash_zero s = (h, None)"
      by (auto simp: NewHash_def split: prod.splits option.splits)
    then show ?thesis
      by (rule p)
  qed
  have b: "invariants h" if "UnmarshalJSON h0 data = (h, None)"
  proof -
    from that obtain t where "parse h0 t = (h, None)"
      by (auto simp: UnmarshalJSON_def split: sum.splits)
    then show ?thesis
      by (rule p)
  qed
  have c: "invariants h" if "SHA256 r = ((h, n, None), r')"
  proof -
    from that obtain d where h: "h = \<lparr>algorithm = ''sha256'', hex = EncodeToString (Sum d [])\<rparr>"
      by (auto simp: SHA256_def split: prod.splits option.splits)
    have "length (EncodeToString (Sum d [])) = 64"
      by (simp add: length_EncodeToString Sum_def length_checkSum)
    with set_EncodeToString [of "Sum d []"] show ?thesis
      unfolding h invariants_iff by (simp del: list.set set_simps)
  qed
  from p a b c show ?thesis
    by blast
qed

theorem successful_results_satisfy_invariants_witness:
  "NewHash ''sha256:e3b0c44298fc1c149afbf4c8996fb92427ae41e4649b934ca495991b7852b855'' =
     (\<lparr>algorithm = ''sha256'',
       hex = ''e3b0c44298fc1c149afbf4c8996fb92427ae41e4649b934ca495991b7852b855''\<rparr>, None) \<and>
   UnmarshalJSON Hash_zero
     ([CHR 0x22] @ ''sha256:e3b0c44298fc1c149afbf4c8996fb92427ae41e4649b934ca495991b7852b855'' @ [CHR 0x22]) =
     (\<lparr>algorithm = ''sha256'',
       hex = ''e3b0c44298fc1c149afbf4c8996fb92427ae41e4649b934ca495991b7852b855''\<rparr>, None) \<and>
   SHA256 \<lparr>results = [], calls = []\<rparr> =
     ((\<lparr>algorithm = ''sha256'',
        hex = ''e3b0c44298fc1c149afbf4c8996fb92427ae41e4649b934ca495991b7852b855''\<rparr>, 0, None),
      \<lparr>results = [], calls = [ReadCall, CloseCall]\<rparr>) \<and>
   invariants \<lparr>algorithm = ''sha256'',
     hex = ''e3b0c44298fc1c149afbf4c8996fb92427ae41e4649b934ca495991b7852b855''\<rparr>"
proof -
  let ?x = "''e3b0c44298fc1c149afbf4c8996fb92427ae41e4649b934ca495991b7852b855''"
  have p: "parse Hash_zero (''sha256:'' @ ?x) = (\<lparr>algorithm = ''sha256'', hex = ?x\<rparr>, None)"
    by (rule parse_valid_text) simp_all
  then have a: "NewHash (''sha256:'' @ ?x) = (\<lparr>algorithm = ''sha256'', hex = ?x\<rparr>, None)"
    by (simp add: NewHash_def)
  have "list_all (\<lambda>c. htmlSafeSet (of_char c)) (''sha256:'' @ ?x)"
    by (simp add: htmlSafeSet_def)
  from Unquote_plain [OF this]
  have "UnmarshalJSON Hash_zero ([CHR 0x22] @ (''sha256:'' @ ?x) @ [CHR 0x22]) =
      parse Hash_zero (''sha256:'' @ ?x)"
    by (simp only: UnmarshalJSON_def sum.case)
  with p have b: "UnmarshalJSON Hash_zero ([CHR 0x22] @ (''sha256:'' @ ?x) @ [CHR 0x22]) =
      (\<lparr>algorithm = ''sha256'', hex = ?x\<rparr>, None)"
    by simp
  have c: "SHA256 \<lparr>results = [], calls = []\<rparr> =
     ((\<lparr>algorithm = ''sha256'', hex = ?x\<rparr>, 0, None), \<lparr>results = [], calls = [ReadCall, CloseCall]\<rparr>)"
    by (simp add: SHA256_def Copy_def copyBuffer.simps Read_def Close_def Sum_New)
  from successful_results_satisfy_invariants
    [of Hash_zero "''sha256:'' @ ?x" "\<lparr>algorithm = ''sha256'', hex = ?x\<rparr>"
        "[CHR 0x22] @ (''sha256:'' @ ?x) @ [CHR 0x22]"
        "\<lparr>results = [], calls = []\<rparr>" 0 "\<lparr>results = [], calls = [ReadCall, CloseCall]\<rparr>"]
    a b c
  show ?thesis
    by simp
qed

text \<open>
  Claim C5 as stated fails: the zero value \<^verbatim>\<open>Hash{}\<close> has an empty algorithm, and it is
  the hash that \<^verbatim>\<open>NewHash\<close> and \<^verbatim>\<open>SHA256\<close> return next to an error.
\<close>

theorem successful_results_satisfy_invariants_counterexample:
  "\<not> invariants Hash_zero \<and>
   NewHash ''md5:00'' = (Hash_zero, Some (UnsupportedHashType ''md5'')) \<and>
   fst (SHA256 \<lparr>results = [([], Some (ReadError ''boom''))], calls = []\<rparr>) =
     (Hash_zero, 0, Some (ReadError ''boom''))"
proof -
  have a: "\<not> invariants Hash_zero"
    by (simp add: invariants_def Hash_zero_def)
  have "parse Hash_zero (''md5'' @ '':'' @ ''00'') = (Hash_zero, Some (UnsupportedHashType ''md5''))"
    by (subst parts_split) simp_all
  then have b: "NewHash ''md5:00'' = (Hash_zero, Some (UnsupportedHashType ''md5''))"
    by (simp add: NewHash_def)
  have c: "fst (SHA256 \<lparr>results = [([], Some (ReadError ''boom''))], calls = []\<rparr>) =
     (Hash_zero, 0, Some (ReadError ''boom''))"
    by (simp add: SHA256_def Copy_def copyBuffer.simps Read_def)
  from a b c show ?thesis
    by simp
qed

end
